theory Spec2Isabelle
  imports Main "HOL-Library.Sublist"
begin

section \<open>JavaScript strings and numbers used by the views\<close>

text \<open>
  Strings are \<^typ>\<open>string\<close> values: the text in UTF-8, one \<^typ>\<open>char\<close> per byte, so that
  a character outside ASCII is two bytes or more and one well-formed text is a substring
  of another exactly when its bytes are. \<open>trim\<close> strips the ASCII white space and line
  terminator characters. \<open>String.prototype.toLowerCase\<close> is the engine's Unicode
  lower-casing of a whole string; it is no definition of this theory: the filter takes
  it as a parameter. The quantities the backend stores are integers, modelled as
  \<^typ>\<open>int\<close>.
\<close>

definition is_space :: "char \<Rightarrow> bool" where
  "is_space c \<longleftrightarrow> of_char c \<in> {9, 10, 11, 12, 13, 32 :: nat}"

definition trim :: "string \<Rightarrow> string" where
  "trim s = rev (dropWhile is_space (rev (dropWhile is_space s)))"

text \<open>\<open>s.includes(q)\<close>: some suffix of \<open>s\<close> starts with \<open>q\<close>.\<close>

fun str_includes :: "string \<Rightarrow> string \<Rightarrow> bool" where
  "str_includes [] q = (q = [])"
| "str_includes (c # s) q = (prefix q (c # s) \<or> str_includes s q)"

text \<open>Number to string, as a template literal prints an integer.\<close>

definition digit_char :: "nat \<Rightarrow> char" where
  "digit_char d = char_of (48 + d)"

fun show_nat :: "nat \<Rightarrow> string" where
  "show_nat n = (if n < 10 then [digit_char n] else show_nat (n div 10) @ [digit_char (n mod 10)])"

declare show_nat.simps [simp del]

definition number_toString :: "int \<Rightarrow> string" where
  "number_toString i = (if i < 0 then CHR ''-'' # show_nat (nat (- i)) else show_nat (nat i))"

text \<open>
  The Numbers \<open>parseInt\<close> can return: \<open>NaN\<close>, an infinity, or a double whose value is an
  integer (the two zeros are not told apart). \<open>to_number\<close> is the Number value of an
  integer: the integer itself below \<open>2^53\<close> in magnitude, beyond that the nearest value
  with 53 significant bits, ties to the even one, and an infinity from \<open>2^1024\<close> on.
\<close>

datatype number = Finite int | PosInfinity | NegInfinity | NaN











section \<open>Data model (src/lib/supabase.ts)\<close>

text \<open>
  The counting operation returns an object with the fields of \<open>item\<close>; an
  \<open>InventoryItem\<close> row of the table carries the same fields and the database columns.
  \<open>colour\<close> and \<open>size\<close> are \<open>string | null\<close>. The quantity of an item that comes from the
  backend is an integer; the quantity of the working copy of the edit form is whatever
  Number the form's handler puts there, so the records leave the type of the quantity
  open.
\<close>

record 'q item_rec =
  barcode :: string
  product :: string
  colour :: "string option"
  size :: "string option"
  quantity :: 'q
  low_stock_threshold :: int

record 'q InventoryItem_rec = "'q item_rec" +
  id' :: string
  user_id :: string
  created_at :: string
  updated_at :: string

type_synonym item = "int item_rec"

type_synonym InventoryItem = "int InventoryItem_rec"

type_synonym EditingItem = "number InventoryItem_rec"

datatype message_type = success | error | info

record ui_message =
  type' :: message_type
  text' :: string

text \<open>
  What an awaited backend call comes back with: \<open>Failed m\<close> when \<open>error\<close> is set or the
  call rejects (\<open>m\<close> is its \<open>message\<close>, if any), \<open>Returned d\<close> when \<open>data\<close> is there, either
  wrapped in a \<open>data\<close> property or bare, and \<open>NoData m\<close> when neither is: reading a field of
  the missing payload then throws a \<open>TypeError\<close>, whose message \<open>m\<close> the engine chooses.
\<close>

datatype 'a payload = Wrapped 'a | Direct 'a

datatype 'a reply = Failed "string option" | Returned "'a payload" | NoData string

text \<open>\<open>data?.data || data\<close>\<close>

definition unwrap :: "'a payload \<Rightarrow> 'a" where
  "unwrap d = (case d of Wrapped x \<Rightarrow> x | Direct x \<Rightarrow> x)"

text \<open>\<open>e.message || fallback\<close>: a missing or empty description gives the fallback.\<close>

definition message_or :: "string option \<Rightarrow> string \<Rightarrow> string" where
  "message_or m fallback = (case m of None \<Rightarrow> fallback | Some t \<Rightarrow> if t = [] then fallback else t)"

section \<open>Dashboard: the inventory table view\<close>

datatype dashboard_request =
    SelectInventory "string option"
  | UpdateItem string string "string option" "string option" number int string
  | DeleteItem string

record dashboard_state =
  inventory :: "InventoryItem list"
  filteredInventory :: "InventoryItem list"
  searchQuery :: string
  editingItem :: "EditingItem option"
  dashboard_sent :: "dashboard_request list"

text \<open>
  The predicate of the filter effect (lines 55 to 60); \<open>?.\<close> on a null field is falsy.
  Its first argument is \<open>String.prototype.toLowerCase\<close>.
\<close>

definition matches :: "(string \<Rightarrow> string) \<Rightarrow> string \<Rightarrow> InventoryItem \<Rightarrow> bool" where
  "matches toLowerCase q it \<longleftrightarrow>
     str_includes (toLowerCase (barcode it)) (toLowerCase q) \<or>
     str_includes (toLowerCase (product it)) (toLowerCase q) \<or>
     (case colour it of None \<Rightarrow> False | Some c \<Rightarrow> str_includes (toLowerCase c) (toLowerCase q)) \<or>
     (case size it of None \<Rightarrow> False | Some z \<Rightarrow> str_includes (toLowerCase z) (toLowerCase q))"

definition filter_effect :: "(string \<Rightarrow> string) \<Rightarrow> dashboard_state \<Rightarrow> dashboard_state" where
  "filter_effect toLowerCase s =
     s\<lparr>filteredInventory := filter (matches toLowerCase (searchQuery s)) (inventory s)\<rparr>"

text \<open>
  The effect depends on \<open>[searchQuery, inventory]\<close>: it runs after each render in which
  one of the two changed, so each setter is followed by the effect.
\<close>

definition setSearchQuery ::
  "(string \<Rightarrow> string) \<Rightarrow> string \<Rightarrow> dashboard_state \<Rightarrow> dashboard_state" where
  "setSearchQuery toLowerCase q s = filter_effect toLowerCase (s\<lparr>searchQuery := q\<rparr>)"

definition setInventory ::
  "(string \<Rightarrow> string) \<Rightarrow> InventoryItem list \<Rightarrow> dashboard_state \<Rightarrow> dashboard_state" where
  "setInventory toLowerCase rows s = filter_effect toLowerCase (s\<lparr>inventory := rows\<rparr>)"

text \<open>
  A table row (lines 265 to 350): the row whose id is the working copy's id is drawn as
  the edit form, which has no status cell; every other row shows the status badge.
\<close>

definition in_edit_mode :: "'q InventoryItem_rec option \<Rightarrow> InventoryItem \<Rightarrow> bool" where
  "in_edit_mode e it = (case e of None \<Rightarrow> False | Some w \<Rightarrow> id' w = id' it)"

definition status_cell :: "'q InventoryItem_rec option \<Rightarrow> InventoryItem \<Rightarrow> string option" where
  "status_cell e it =
     (if in_edit_mode e it then None
      else if quantity it \<le> low_stock_threshold it then Some ''Low Stock'' else Some ''In Stock'')"





section \<open>Scanner: the scan input pipeline and the quantity control\<close>

datatype action = increment | decrement

datatype productData = ProductData (pd_product: string) (pd_colour: string) (pd_size: string)

text \<open>The body of a call of the \<open>sync-inventory\<close> function.\<close>

datatype request =
  SyncInventory (req_action: action) (req_barcode: string) (req_productData: "productData option")

text \<open>
  A timer callback is a closure. The auto-submit callback of \<open>handleInputChange\<close> (lines 86
  to 90) closes over \<open>value\<close> and over the \<open>handleBarcodeSubmit\<close> of the render in which the
  change was handled, hence over that render's constant \<open>isProcessing\<close>; both are kept in
  \<open>AutoSubmit\<close>. The other callbacks only clear the message.
\<close>

datatype callback = AutoSubmit string bool | ClearMessage

record timer =
  tid :: nat
  deadline :: nat
  callback :: callback

datatype continuation = AwaitScan | AwaitQuantity

text \<open>
  The component's state, the browser's timer table with its millisecond clock, and the
  calls made to the backend: \<open>sent\<close> lists every request in order, \<open>inflight\<close> those not yet
  answered, by their index in \<open>sent\<close>, with the handler that awaits each.
\<close>

record scanner_state =
  barcodeInput :: string
  lastScannedItem :: "item option"
  scanMessage :: "ui_message option"
  isProcessing :: bool
  scanTimeoutRef :: "nat option"
  timers :: "timer list"
  nextTimer :: nat
  clock :: nat
  sent :: "request list"
  inflight :: "(nat \<times> continuation) list"

definition initial :: scanner_state where
  "initial = \<lparr>barcodeInput = [], lastScannedItem = None, scanMessage = None,
     isProcessing = False, scanTimeoutRef = None, timers = [], nextTimer = 0, clock = 0,
     sent = [], inflight = []\<rparr>"

definition setTimeout :: "callback \<Rightarrow> nat \<Rightarrow> scanner_state \<Rightarrow> nat \<times> scanner_state" where
  "setTimeout cb delay s =
     (nextTimer s,
      s\<lparr>timers := timers s @ [\<lparr>tid = nextTimer s, deadline = clock s + delay, callback = cb\<rparr>],
        nextTimer := nextTimer s + 1\<rparr>)"

definition clearTimeout :: "nat \<Rightarrow> scanner_state \<Rightarrow> scanner_state" where
  "clearTimeout i s = s\<lparr>timers := filter (\<lambda>t. tid t \<noteq> i) (timers s)\<rparr>"

definition clear_ref :: "scanner_state \<Rightarrow> scanner_state" where
  "clear_ref s = (case scanTimeoutRef s of None \<Rightarrow> s | Some i \<Rightarrow> clearTimeout i s)"

definition invoke :: "request \<Rightarrow> continuation \<Rightarrow> scanner_state \<Rightarrow> scanner_state" where
  "invoke r k s = s\<lparr>sent := sent s @ [r], inflight := inflight s @ [(length (sent s), k)]\<rparr>"

definition scan_request :: "string \<Rightarrow> request" where
  "scan_request code =
     SyncInventory increment (trim code)
       (Some (ProductData (''Product-'' @ trim code) [] []))"

text \<open>
  \<open>handleBarcodeSubmit\<close> up to its \<open>await\<close> (lines 30 to 48). Its first argument is the
  \<open>isProcessing\<close> of the closure through which it is called.
\<close>

definition handleBarcodeSubmit :: "bool \<Rightarrow> string \<Rightarrow> scanner_state \<Rightarrow> scanner_state" where
  "handleBarcodeSubmit isProcessing_c code s =
     (if trim code = [] \<or> isProcessing_c then s
      else invoke (scan_request code) AwaitScan (s\<lparr>isProcessing := True, scanMessage := None\<rparr>))"

definition scanned_text :: "item \<Rightarrow> string" where
  "scanned_text it =
     ''Scanned: '' @ product it @ '' (Quantity: '' @ number_toString (quantity it) @ '')''"

text \<open>The rest of \<open>handleBarcodeSubmit\<close>, run when the call is answered (lines 50 to 74).\<close>

definition resumeBarcodeSubmit :: "item reply \<Rightarrow> scanner_state \<Rightarrow> scanner_state" where
  "resumeBarcodeSubmit r s =
     (let s1 =
        (case r of
           Failed m \<Rightarrow>
             s\<lparr>scanMessage := Some \<lparr>type' = error, text' = message_or m ''Failed to process barcode''\<rparr>\<rparr>
         | Returned d \<Rightarrow>
             snd (setTimeout ClearMessage 3000
               (s\<lparr>lastScannedItem := Some (unwrap d),
                  scanMessage := Some \<lparr>type' = success, text' = scanned_text (unwrap d)\<rparr>\<rparr>))
         | NoData m \<Rightarrow>
             s\<lparr>lastScannedItem := None,
               scanMessage := Some \<lparr>type' = error, text' = message_or (Some m) ''Failed to process barcode''\<rparr>\<rparr>)
      in s1\<lparr>isProcessing := False, barcodeInput := []\<rparr>)"

text \<open>\<open>handleInputChange\<close> (lines 77 to 91).\<close>

definition handleInputChange :: "string \<Rightarrow> scanner_state \<Rightarrow> scanner_state" where
  "handleInputChange v s =
     (let (i, s1) = setTimeout (AutoSubmit v (isProcessing s)) 100
                      (clear_ref (s\<lparr>barcodeInput := v\<rparr>))
      in s1\<lparr>scanTimeoutRef := Some i\<rparr>)"

text \<open>\<open>handleManualSubmit\<close> (lines 93 to 99), called through the current render.\<close>

definition handleManualSubmit :: "scanner_state \<Rightarrow> scanner_state" where
  "handleManualSubmit s = handleBarcodeSubmit (isProcessing s) (barcodeInput s) (clear_ref s)"

text \<open>\<open>handleQuantityChange\<close> up to its \<open>await\<close> (lines 101 to 112) and after it.\<close>

definition handleQuantityChange :: "action \<Rightarrow> scanner_state \<Rightarrow> scanner_state" where
  "handleQuantityChange a s =
     (case lastScannedItem s of
        None \<Rightarrow> s
      | Some it \<Rightarrow>
          if isProcessing s then s
          else invoke (SyncInventory a (barcode it) None) AwaitQuantity (s\<lparr>isProcessing := True\<rparr>))"

definition resumeQuantityChange :: "item reply \<Rightarrow> scanner_state \<Rightarrow> scanner_state" where
  "resumeQuantityChange r s =
     (let s1 =
        (case r of
           Failed m \<Rightarrow>
             s\<lparr>scanMessage := Some \<lparr>type' = error, text' = message_or m ''Failed to update quantity''\<rparr>\<rparr>
         | Returned d \<Rightarrow>
             snd (setTimeout ClearMessage 2000
               (s\<lparr>lastScannedItem := Some (unwrap d),
                  scanMessage := Some \<lparr>type' = success,
                    text' = ''Updated quantity to '' @ number_toString (quantity (unwrap d))\<rparr>\<rparr>))
         | NoData m \<Rightarrow>
             s\<lparr>lastScannedItem := None,
               scanMessage := Some \<lparr>type' = error, text' = message_or (Some m) ''Failed to update quantity''\<rparr>\<rparr>)
      in s1\<lparr>isProcessing := False\<rparr>)"

subsection \<open>What the render enables\<close>

text \<open>
  The \<open>disabled\<close> attributes of the input (line 186), the submit button (line 194) and the
  two quantity buttons (lines 239 and 252); the buttons exist only while there is a
  snapshot (line 206). The low stock alert is line 260.
\<close>

definition input_disabled :: "scanner_state \<Rightarrow> bool" where
  "input_disabled s = isProcessing s"

definition submit_disabled :: "scanner_state \<Rightarrow> bool" where
  "submit_disabled s = (isProcessing s \<or> trim (barcodeInput s) = [])"

definition button_disabled :: "action \<Rightarrow> scanner_state \<Rightarrow> bool" where
  "button_disabled a s =
     (case lastScannedItem s of
        None \<Rightarrow> True
      | Some it \<Rightarrow>
          (case a of decrement \<Rightarrow> isProcessing s \<or> quantity it \<le> 0 | increment \<Rightarrow> isProcessing s))"

definition low_stock_alert :: "scanner_state \<Rightarrow> bool" where
  "low_stock_alert s =
     (case lastScannedItem s of None \<Rightarrow> False | Some it \<Rightarrow> quantity it \<le> low_stock_threshold it)"

subsection \<open>Events\<close>

definition fire :: "callback \<Rightarrow> scanner_state \<Rightarrow> scanner_state" where
  "fire cb s =
     (case cb of
        AutoSubmit v p \<Rightarrow> if trim v \<noteq> [] then handleBarcodeSubmit p v s else s
      | ClearMessage \<Rightarrow> s\<lparr>scanMessage := None\<rparr>)"

text \<open>One millisecond passes; the timers that are due run in the order they were set.\<close>

definition tick :: "scanner_state \<Rightarrow> scanner_state" where
  "tick s =
     (let t = clock s + 1 in
      fold (\<lambda>x. fire (callback x)) (filter (\<lambda>x. deadline x \<le> t) (timers s))
        (s\<lparr>clock := t, timers := filter (\<lambda>x. \<not> deadline x \<le> t) (timers s)\<rparr>))"

definition elapse :: "nat \<Rightarrow> scanner_state \<Rightarrow> scanner_state" where
  "elapse n s = (tick ^^ n) s"

definition deliver :: "nat \<Rightarrow> item reply \<Rightarrow> scanner_state \<Rightarrow> scanner_state" where
  "deliver rid r s =
     (case map_of (inflight s) rid of
        None \<Rightarrow> s
      | Some k \<Rightarrow>
          (let s1 = s\<lparr>inflight := filter (\<lambda>p. fst p \<noteq> rid) (inflight s)\<rparr> in
           case k of AwaitScan \<Rightarrow> resumeBarcodeSubmit r s1 | AwaitQuantity \<Rightarrow> resumeQuantityChange r s1))"

text \<open>
  What can happen to the view: the user changes the input, submits the form or presses
  a quantity button (each only where the render enables it), the backend answers a
  call, or time passes.
\<close>

datatype event =
    Change string
  | SubmitForm
  | Press action
  | Answer nat "item reply"
  | Elapse nat

fun step :: "event \<Rightarrow> scanner_state \<Rightarrow> scanner_state" where
  "step (Change v) s = (if input_disabled s then s else handleInputChange v s)"
| "step SubmitForm s = (if submit_disabled s then s else handleManualSubmit s)"
| "step (Press a) s = (if button_disabled a s then s else handleQuantityChange a s)"
| "step (Answer rid r) s = deliver rid r s"
| "step (Elapse n) s = elapse n s"

definition run :: "event list \<Rightarrow> scanner_state \<Rightarrow> scanner_state" where
  "run es s = fold step es s"

text \<open>
  A burst of characters: each is appended to the displayed buffer after its gap (in
  milliseconds) since the previous change.
\<close>

fun deliver_chars :: "(nat \<times> char) list \<Rightarrow> scanner_state \<Rightarrow> scanner_state" where
  "deliver_chars [] s = s"
| "deliver_chars ((gap, c) # rest) s =
     deliver_chars rest
       (step (Change (barcodeInput (elapse gap s) @ [c])) (elapse gap s))"

section \<open>Settings: the spreadsheet bridge\<close>

text \<open>
  The calls of the settings view: the two edge functions with their bodies, and the
  history query \<open>from('google_sheets_sync').select('*').eq('user_id', user?.id)
  .order('created_at', {ascending: false}).limit(5)\<close> with the user id, the direction
  and the limit it names.
\<close>

datatype settings_request =
    ImportFromSheets string string string
  | ExportToSheets string string string
  | SelectSyncHistory "string option" bool nat

datatype import_result = ImportResult (imported: int) (errors: int)

datatype export_result = ExportResult (exportedRows: int)

record 'r settings_state =
  spreadsheetId :: string
  range' :: string
  apiKey :: string
  accessToken :: string
  loading :: bool
  message :: "ui_message option"
  syncHistory :: "'r list"
  user :: "string option"
  settings_sent :: "settings_request list"

text \<open>\<open>loadSyncHistory\<close> up to its \<open>await\<close> (lines 36 to 43) and after it (lines 45 to 49).\<close>

definition loadSyncHistory :: "'r settings_state \<Rightarrow> 'r settings_state" where
  "loadSyncHistory s = s\<lparr>settings_sent := settings_sent s @ [SelectSyncHistory (user s) False 5]\<rparr>"

text \<open>The answer to the query: an error, or \<open>data\<close>, which may be null.\<close>

datatype 'r rows_reply = QueryFailed | Rows "'r list option"

definition resumeLoadSyncHistory :: "'r rows_reply \<Rightarrow> 'r settings_state \<Rightarrow> 'r settings_state" where
  "resumeLoadSyncHistory r s =
     (case r of
        QueryFailed \<Rightarrow> s
      | Rows d \<Rightarrow> s\<lparr>syncHistory := (case d of None \<Rightarrow> [] | Some rows \<Rightarrow> rows)\<rparr>)"

text \<open>
  \<open>handleImport\<close> up to its \<open>await\<close> (lines 52 to 68): the check of the three fields
  throws before \<open>invoke\<close> is reached, and the throw lands in the handler's own \<open>catch\<close> and
  \<open>finally\<close>.
\<close>

definition handleImport :: "'r settings_state \<Rightarrow> 'r settings_state" where
  "handleImport s =
     (let s1 = s\<lparr>loading := True, message := None\<rparr> in
      if spreadsheetId s = [] \<or> range' s = [] \<or> apiKey s = [] then
        s1\<lparr>message := Some \<lparr>type' = error,
              text' = message_or (Some ''Please fill in all required fields'')
                        ''Failed to import from Google Sheets''\<rparr>,
           loading := False\<rparr>
      else s1\<lparr>settings_sent := settings_sent s1 @
                [ImportFromSheets (spreadsheetId s) (range' s) (apiKey s)]\<rparr>)"

definition imported_text :: "import_result \<Rightarrow> string" where
  "imported_text res =
     ''Successfully imported '' @ number_toString (imported res) @ '' items'' @
     (if errors res > 0 then '' ('' @ number_toString (errors res) @ '' errors)'' else [])"

text \<open>The rest of \<open>handleImport\<close> (lines 70 to 87).\<close>

definition resumeImport :: "import_result reply \<Rightarrow> 'r settings_state \<Rightarrow> 'r settings_state" where
  "resumeImport r s =
     (let s1 =
        (case r of
           Failed m \<Rightarrow>
             s\<lparr>message := Some \<lparr>type' = error,
                  text' = message_or m ''Failed to import from Google Sheets''\<rparr>\<rparr>
         | Returned d \<Rightarrow>
             loadSyncHistory
               (s\<lparr>message := Some \<lparr>type' = success, text' = imported_text (unwrap d)\<rparr>\<rparr>)
         | NoData m \<Rightarrow>
             s\<lparr>message := Some \<lparr>type' = error,
                  text' = message_or (Some m) ''Failed to import from Google Sheets''\<rparr>\<rparr>)
      in s1\<lparr>loading := False\<rparr>)"

text \<open>\<open>handleExport\<close> (lines 90 to 126), built the same way.\<close>

definition handleExport :: "'r settings_state \<Rightarrow> 'r settings_state" where
  "handleExport s =
     (let s1 = s\<lparr>loading := True, message := None\<rparr> in
      if spreadsheetId s = [] \<or> range' s = [] \<or> accessToken s = [] then
        s1\<lparr>message := Some \<lparr>type' = error,
              text' = message_or (Some ''Please fill in all required fields including access token'')
                        ''Failed to export to Google Sheets''\<rparr>,
           loading := False\<rparr>
      else s1\<lparr>settings_sent := settings_sent s1 @
                [ExportToSheets (spreadsheetId s) (range' s) (accessToken s)]\<rparr>)"

definition exported_text :: "export_result \<Rightarrow> string" where
  "exported_text res =
     ''Successfully exported '' @ number_toString (exportedRows res) @ '' items to Google Sheets''"

definition resumeExport :: "export_result reply \<Rightarrow> 'r settings_state \<Rightarrow> 'r settings_state" where
  "resumeExport r s =
     (let s1 =
        (case r of
           Failed m \<Rightarrow>
             s\<lparr>message := Some \<lparr>type' = error,
                  text' = message_or m ''Failed to export to Google Sheets''\<rparr>\<rparr>
         | Returned d \<Rightarrow>
             loadSyncHistory
               (s\<lparr>message := Some \<lparr>type' = success, text' = exported_text (unwrap d)\<rparr>\<rparr>)
         | NoData m \<Rightarrow>
             s\<lparr>message := Some \<lparr>type' = error,
                  text' = message_or (Some m) ''Failed to export to Google Sheets''\<rparr>\<rparr>)
      in s1\<lparr>loading := False\<rparr>)"

section \<open>The properties, in the specification's words\<close>

text \<open>
  The lower-cased query is a substring of the lower-cased field, for a lower-casing
  \<open>lc\<close> of whole strings.
\<close>

definition lowered_substring :: "(string \<Rightarrow> string) \<Rightarrow> string \<Rightarrow> string \<Rightarrow> bool" where
  "lowered_substring lc q s \<longleftrightarrow> (\<exists>ps ss. lc s = ps @ lc q @ ss)"

definition lowered_matches :: "(string \<Rightarrow> string) \<Rightarrow> string \<Rightarrow> InventoryItem \<Rightarrow> bool" where
  "lowered_matches lc q r \<longleftrightarrow>
     lowered_substring lc q (barcode r) \<or> lowered_substring lc q (product r) \<or>
     (\<exists>c. colour r = Some c \<and> lowered_substring lc q c) \<or>
     (\<exists>z. size r = Some z \<and> lowered_substring lc q z)"

text \<open>
  A query is a case-insensitive substring of a field when some stretch of the field
  spells the query up to the case of its letters. For ASCII text, where two characters
  are the same letter when they agree after \<open>A\<close>..\<open>Z\<close> are folded to \<open>a\<close>..\<open>z\<close>:
\<close>

definition ascii_lower :: "char \<Rightarrow> char" where
  "ascii_lower c =
     (let n = (of_char c :: nat) in if 65 \<le> n \<and> n \<le> 90 then char_of (n + 32) else c)"

definition same_letter :: "char \<Rightarrow> char \<Rightarrow> bool" where
  "same_letter a b \<longleftrightarrow> ascii_lower a = ascii_lower b"

definition ci_substring :: "string \<Rightarrow> string \<Rightarrow> bool" where
  "ci_substring q s \<longleftrightarrow> (\<exists>ps m ss. s = ps @ m @ ss \<and> list_all2 same_letter m q)"

definition query_matches :: "string \<Rightarrow> InventoryItem \<Rightarrow> bool" where
  "query_matches q r \<longleftrightarrow>
     ci_substring q (barcode r) \<or> ci_substring q (product r) \<or>
     (\<exists>c. colour r = Some c \<and> ci_substring q c) \<or>
     (\<exists>z. size r = Some z \<and> ci_substring q z)"

definition ascii :: "string \<Rightarrow> bool" where
  "ascii s = list_all (\<lambda>c. (of_char c :: nat) < 128) s"

definition ascii_row :: "InventoryItem \<Rightarrow> bool" where
  "ascii_row r \<longleftrightarrow>
     ascii (barcode r) \<and> ascii (product r) \<and>
     (case colour r of None \<Rightarrow> True | Some c \<Rightarrow> ascii c) \<and>
     (case size r of None \<Rightarrow> True | Some z \<Rightarrow> ascii z)"

text \<open>
  On ASCII text \<open>toLowerCase\<close> folds \<open>A\<close>..\<open>Z\<close> and changes nothing else.
\<close>

definition folds_ascii :: "(string \<Rightarrow> string) \<Rightarrow> bool" where
  "folds_ascii lc \<longleftrightarrow> (\<forall>x. ascii x \<longrightarrow> lc x = map ascii_lower x)"

text \<open>
  \<open>toLowerCase\<close> worked out for text made of ASCII characters and the Greek letters
  \<open>U+0391\<close> to \<open>U+03A9\<close> and \<open>U+03B1\<close> to \<open>U+03C9\<close>, in UTF-8 (lead bytes \<open>CE\<close> and \<open>CF\<close>);
  other bytes are copied. A capital letter becomes its small letter; the capital sigma
  \<open>CE A3\<close> becomes the final sigma \<open>CF 82\<close> when a letter stands right before it and none
  right after it (the Final_Sigma rule of the Unicode standard, which ECMAScript
  follows; the standard also looks past apostrophes, full stops and the other
  case-ignorable characters next to the sigma, which this function does not), and the
  sigma \<open>CF 83\<close> otherwise. The flag says whether the character before is a letter. The
  function serves the examples; the theorems hold for every lower-casing.
\<close>

definition ascii_letter :: "char \<Rightarrow> bool" where
  "ascii_letter c \<longleftrightarrow>
     (let n = (of_char c :: nat) in (65 \<le> n \<and> n \<le> 90) \<or> (97 \<le> n \<and> n \<le> 122))"

definition greek_capital :: "char \<Rightarrow> bool" where
  "greek_capital d \<longleftrightarrow> (let n = (of_char d :: nat) in 145 \<le> n \<and> n \<le> 169 \<and> n \<noteq> 162)"

definition greek_small :: "char \<Rightarrow> char \<Rightarrow> bool" where
  "greek_small c d \<longleftrightarrow>
     (let n = (of_char d :: nat) in
      (c = CHR 0xCE \<and> 177 \<le> n \<and> n \<le> 191) \<or> (c = CHR 0xCF \<and> 128 \<le> n \<and> n \<le> 137))"

definition greek_lower :: "char \<Rightarrow> string" where
  "greek_lower d =
     (let n = (of_char d :: nat) in
      if n \<le> 159 then [CHR 0xCE, char_of (n + 32)] else [CHR 0xCF, char_of (n - 32)])"

definition starts_with_letter :: "string \<Rightarrow> bool" where
  "starts_with_letter s =
     (case s of
        [] \<Rightarrow> False
      | c # r \<Rightarrow>
          ascii_letter c \<or>
          (case r of [] \<Rightarrow> False | d # t \<Rightarrow> (c = CHR 0xCE \<and> greek_capital d) \<or> greek_small c d))"

fun lower_from :: "bool \<Rightarrow> string \<Rightarrow> string" where
  "lower_from p [] = []"
| "lower_from p [c] = [ascii_lower c]"
| "lower_from p (c # d # r) =
     (if c = CHR 0xCE \<and> d = CHR 0xA3 then
        (if p \<and> \<not> starts_with_letter r then [CHR 0xCF, CHR 0x82] else [CHR 0xCF, CHR 0x83])
        @ lower_from True r
      else if c = CHR 0xCE \<and> greek_capital d then greek_lower d @ lower_from True r
      else if greek_small c d then c # d # lower_from True r
      else ascii_lower c # lower_from (ascii_letter c) (d # r))"

definition lower_greek :: "string \<Rightarrow> string" where
  "lower_greek s = lower_from False s"





text \<open>
  The pending auto-submit timers, and the two facts the scan pipeline keeps about them:
  the ref names every one of them, and after a change exactly one is pending, for the
  value just typed.
\<close>

definition is_auto :: "callback \<Rightarrow> bool" where
  "is_auto cb = (case cb of AutoSubmit v p \<Rightarrow> True | ClearMessage \<Rightarrow> False)"

definition auto_timers :: "scanner_state \<Rightarrow> timer list" where
  "auto_timers s = filter (\<lambda>t. is_auto (callback t)) (timers s)"

definition ref_tracks :: "scanner_state \<Rightarrow> bool" where
  "ref_tracks s = list_all (\<lambda>t. scanTimeoutRef s = Some (tid t)) (auto_timers s)"

definition armed :: "string \<Rightarrow> nat \<Rightarrow> request list \<Rightarrow> scanner_state \<Rightarrow> bool" where
  "armed v d l s \<longleftrightarrow>
     barcodeInput s = v \<and> \<not> isProcessing s \<and> sent s = l \<and> clock s < d \<and>
     (\<exists>i. scanTimeoutRef s = Some i \<and>
          auto_timers s = [\<lparr>tid = i, deadline = d, callback = AutoSubmit v False\<rparr>])"

text \<open>The requests a list of due callbacks sends, one after the other.\<close>

definition submits :: "callback \<Rightarrow> request list" where
  "submits cb =
     (case cb of
        AutoSubmit v p \<Rightarrow> if trim v \<noteq> [] \<and> \<not> p then [scan_request v] else []
      | ClearMessage \<Rightarrow> [])"

subsection \<open>Sample data\<close>

definition rowA :: InventoryItem where
  "rowA = \<lparr>barcode = ''ABC-1'', product = ''Widget'', colour = Some ''Red'', size = None,
     quantity = 3, low_stock_threshold = 5, id' = ''r1'', user_id = ''u1'',
     created_at = ''2025-01-01'', updated_at = ''2025-01-02''\<rparr>"

definition rowB :: InventoryItem where
  "rowB = \<lparr>barcode = ''XYZ'', product = ''Gadget'', colour = None, size = Some ''L'',
     quantity = 9, low_stock_threshold = 5, id' = ''r2'', user_id = ''u1'',
     created_at = ''2025-01-01'', updated_at = ''2025-01-03''\<rparr>"

text \<open>
  A row whose product is the three Greek capitals alpha, sigma, alpha, and the query
  alpha, sigma, which the product starts with.
\<close>

definition rowS :: InventoryItem where
  "rowS = \<lparr>barcode = ''S-1'',
     product = [CHR 0xCE, CHR 0x91, CHR 0xCE, CHR 0xA3, CHR 0xCE, CHR 0x91],
     colour = None, size = None, quantity = 2, low_stock_threshold = 5, id' = ''r3'',
     user_id = ''u1'', created_at = ''2025-01-01'', updated_at = ''2025-01-04''\<rparr>"

definition queryS :: string where
  "queryS = [CHR 0xCE, CHR 0x91, CHR 0xCE, CHR 0xA3]"

definition dash0 :: dashboard_state where
  "dash0 = \<lparr>inventory = [rowA, rowB], filteredInventory = [rowA, rowB], searchQuery = [],
     editingItem = None, dashboard_sent = []\<rparr>"

definition itemA :: item where
  "itemA = \<lparr>barcode = ''A'', product = ''Product-A'', colour = None, size = None,
     quantity = 1, low_stock_threshold = 10\<rparr>"

definition settings0 :: "nat settings_state" where
  "settings0 = \<lparr>spreadsheetId = ''sheet'', range' = ''Sheet1!A:F'', apiKey = [],
     accessToken = [], loading = False, message = None, syncHistory = [7, 3],
     user = Some ''u1'', settings_sent = []\<rparr>"

definition snap0 :: scanner_state where
  "snap0 = initial\<lparr>lastScannedItem := Some (itemA\<lparr>quantity := 0\<rparr>)\<rparr>"

definition busy_scan :: scanner_state where
  "busy_scan = run [Change ''A'', SubmitForm, Answer 0 (Returned (Direct itemA)), Change ''B'', SubmitForm] initial"

text \<open>
  A burst typed into the input: the first character now, the others after their gaps.
\<close>

definition burst :: "char \<Rightarrow> (nat \<times> char) list \<Rightarrow> scanner_state \<Rightarrow> scanner_state" where
  "burst c rest s = deliver_chars rest (step (Change (barcodeInput s @ [c])) s)"

text \<open>
  A session: \<open>A\<close> is scanned and answered, \<open>B\<close> is typed, and 10 ms later, before the
  auto-submit timer of \<open>B\<close> is due, the increment button is pressed.
\<close>

definition typed_B :: scanner_state where
  "typed_B = run [Change ''A'', SubmitForm, Answer 0 (Returned (Direct itemA)), Change ''B''] initial"

definition pressed :: scanner_state where
  "pressed = run [Elapse 10, Press increment] typed_B"

definition dashS :: dashboard_state where
  "dashS = \<lparr>inventory = [rowA, rowS], filteredInventory = [rowA, rowS], searchQuery = [],
     editingItem = None, dashboard_sent = []\<rparr>"

section \<open>Timers that fire\<close>

lemma fire_sent: "sent (fire cb s) = sent s @ submits cb"
  by (cases cb) (auto simp: fire_def submits_def handleBarcodeSubmit_def invoke_def)

lemma fire_kept:
  "timers (fire cb s) = timers s" "lastScannedItem (fire cb s) = lastScannedItem s"
  "scanTimeoutRef (fire cb s) = scanTimeoutRef s" "clock (fire cb s) = clock s"
  "barcodeInput (fire cb s) = barcodeInput s" "nextTimer (fire cb s) = nextTimer s"
  by (cases cb; simp add: fire_def handleBarcodeSubmit_def invoke_def)+

lemma fold_fire_sent:
  "sent (fold (\<lambda>x. fire (callback x)) ts s) = sent s @ concat (map (\<lambda>x. submits (callback x)) ts)"
  by (induction ts arbitrary: s) (simp_all add: fire_sent)

lemma fold_fire_kept:
  "timers (fold (\<lambda>x. fire (callback x)) ts s) = timers s"
  "lastScannedItem (fold (\<lambda>x. fire (callback x)) ts s) = lastScannedItem s"
  "scanTimeoutRef (fold (\<lambda>x. fire (callback x)) ts s) = scanTimeoutRef s"
  "clock (fold (\<lambda>x. fire (callback x)) ts s) = clock s"
  "barcodeInput (fold (\<lambda>x. fire (callback x)) ts s) = barcodeInput s"
  "nextTimer (fold (\<lambda>x. fire (callback x)) ts s) = nextTimer s"
  by (induction ts arbitrary: s; simp add: fire_kept)+

lemma submits_increment: "r \<in> set (submits cb) \<Longrightarrow> req_action r = increment"
  by (cases cb) (auto simp: submits_def scan_request_def split: if_splits)

lemma tick_decrements:
  "filter (\<lambda>r. req_action r = decrement) (sent (tick s)) = filter (\<lambda>r. req_action r = decrement) (sent s)"
proof -
  have "filter (\<lambda>r. req_action r = decrement) (concat (map (\<lambda>x. submits (callback x)) ts)) = []" for ts
    by (induction ts) (auto simp: filter_empty_conv dest: submits_increment)
  then show ?thesis
    by (simp add: tick_def Let_def fold_fire_sent)
qed

lemma tick_snapshot: "lastScannedItem (tick s) = lastScannedItem s"
  by (simp add: tick_def Let_def fold_fire_kept)

lemma elapse_decrements:
  "filter (\<lambda>r. req_action r = decrement) (sent (elapse n s)) = filter (\<lambda>r. req_action r = decrement) (sent s)"
  by (induction n) (simp_all add: elapse_def tick_decrements)

lemma resume_sent:
  "sent (resumeBarcodeSubmit r s) = sent s" "sent (resumeQuantityChange r s) = sent s"
  by (cases r; simp add: resumeBarcodeSubmit_def resumeQuantityChange_def setTimeout_def)+

lemma deliver_sent: "sent (deliver rid r s) = sent s"
  by (simp add: deliver_def Let_def resume_sent split: option.splits continuation.splits)

lemma clear_ref_kept:
  "sent (clear_ref s) = sent s" "isProcessing (clear_ref s) = isProcessing s"
  "barcodeInput (clear_ref s) = barcodeInput s" "lastScannedItem (clear_ref s) = lastScannedItem s"
  "scanTimeoutRef (clear_ref s) = scanTimeoutRef s" "clock (clear_ref s) = clock s"
  "nextTimer (clear_ref s) = nextTimer s" "inflight (clear_ref s) = inflight s"
  "scanMessage (clear_ref s) = scanMessage s"
  by (simp_all add: clear_ref_def clearTimeout_def split: option.splits)

lemma handleInputChange_sent: "sent (handleInputChange v s) = sent s"
  by (simp add: handleInputChange_def setTimeout_def clear_ref_kept)

lemma handleManualSubmit_decrements:
  "filter (\<lambda>r. req_action r = decrement) (sent (handleManualSubmit s)) = filter (\<lambda>r. req_action r = decrement) (sent s)"
  by (simp add: handleManualSubmit_def handleBarcodeSubmit_def invoke_def clear_ref_kept scan_request_def)

section \<open>Quantity buttons\<close>

text \<open>
  Claim C3. While the snapshot's quantity is 0 or less the decrement button is disabled
  and no event sends a decrement request; the decrement button is disabled exactly when
  an operation is in flight or the quantity is 0 or less, the increment button exactly
  when an operation is in flight; with a snapshot and no operation in flight a press of
  increment sends an increment request for the snapshot's barcode, whatever the
  quantity.
\<close>

theorem C3_quantity_guards:
  "(lastScannedItem s = Some it \<and> quantity it \<le> 0 \<longrightarrow>
      button_disabled decrement s \<and>
      filter (\<lambda>r. req_action r = decrement) (sent (step e s)) =
      filter (\<lambda>r. req_action r = decrement) (sent s))
   \<and> (lastScannedItem s = Some it \<longrightarrow>
      button_disabled decrement s = (isProcessing s \<or> quantity it \<le> 0) \<and>
      button_disabled increment s = isProcessing s)
   \<and> (lastScannedItem s = Some it \<and> \<not> isProcessing s \<longrightarrow>
      sent (step (Press increment) s) = sent s @ [SyncInventory increment (barcode it) None])"
proof -
  have "filter (\<lambda>r. req_action r = decrement) (sent (step e s)) =
      filter (\<lambda>r. req_action r = decrement) (sent s)"
    if "lastScannedItem s = Some it" "quantity it \<le> 0"
  proof (cases e)
    case (Change v)
    then show ?thesis by (simp add: handleInputChange_sent)
  next
    case SubmitForm
    then show ?thesis by (simp add: handleManualSubmit_decrements)
  next
    case (Press a)
    with that show ?thesis
      by (cases a) (simp_all add: button_disabled_def handleQuantityChange_def invoke_def)
  next
    case (Answer rid r)
    then show ?thesis by (simp add: deliver_sent)
  next
    case (Elapse n)
    then show ?thesis by (simp add: elapse_decrements)
  qed
  then show ?thesis
    by (simp add: button_disabled_def handleQuantityChange_def invoke_def)
qed

theorem C3_quantity_guards_witness:
  "step (Press decrement) snap0 = snap0
   \<and> sent (step (Press increment) (snap0\<lparr>lastScannedItem := Some (itemA\<lparr>quantity := 1000000\<rparr>)\<rparr>))
       = [SyncInventory increment ''A'' None]"
proof -
  have a: "lastScannedItem snap0 = Some (itemA\<lparr>quantity := 0\<rparr>) \<and> quantity (itemA\<lparr>quantity := 0\<rparr>) \<le> 0"
    by (simp add: snap0_def)
  with C3_quantity_guards [of snap0 "itemA\<lparr>quantity := 0\<rparr>" "Press decrement"]
  have "button_disabled decrement snap0" by blast
  then have d: "step (Press decrement) snap0 = snap0" by simp
  have b: "lastScannedItem (snap0\<lparr>lastScannedItem := Some (itemA\<lparr>quantity := 1000000\<rparr>)\<rparr>) = Some (itemA\<lparr>quantity := 1000000\<rparr>)
     \<and> \<not> isProcessing (snap0\<lparr>lastScannedItem := Some (itemA\<lparr>quantity := 1000000\<rparr>)\<rparr>)"
    by (simp add: snap0_def initial_def)
  with C3_quantity_guards [of "snap0\<lparr>lastScannedItem := Some (itemA\<lparr>quantity := 1000000\<rparr>)\<rparr>" "itemA\<lparr>quantity := 1000000\<rparr>" "Press decrement"]
  have "sent (step (Press increment) (snap0\<lparr>lastScannedItem := Some (itemA\<lparr>quantity := 1000000\<rparr>)\<rparr>))
       = sent (snap0\<lparr>lastScannedItem := Some (itemA\<lparr>quantity := 1000000\<rparr>)\<rparr>) @ [SyncInventory increment (barcode (itemA\<lparr>quantity := 1000000\<rparr>)) None]"
    by blast
  with d show ?thesis
    by (simp add: snap0_def initial_def itemA_def)
qed


section \<open>Low stock\<close>

text \<open>
  The row being edited is drawn as the edit form and shows no status, also when its
  quantity is at or below its threshold.
\<close>

theorem C5_counterexample:
  "quantity rowA \<le> low_stock_threshold rowA \<and> status_cell (Some rowA) rowA \<noteq> Some ''Low Stock''
   \<and> status_cell (Some rowA) rowA = None"
  by (simp add: status_cell_def in_edit_mode_def rowA_def)

text \<open>
  Claim C5, amended. Every table row that is not being edited shows \<open>Low Stock\<close> when
  its quantity is at most its threshold and \<open>In Stock\<close> otherwise; the row being edited
  shows no status; the scanner shows the low stock alert exactly when there is a snapshot
  whose quantity is at most its threshold. Both are computed from the current fields.
\<close>

theorem C5_low_stock:
  "(\<not> in_edit_mode e r \<longrightarrow>
      status_cell e r = Some (if quantity r \<le> low_stock_threshold r then ''Low Stock'' else ''In Stock''))
   \<and> (in_edit_mode e r \<longrightarrow> status_cell e r = None)
   \<and> (lastScannedItem s = Some it \<longrightarrow> low_stock_alert s = (quantity it \<le> low_stock_threshold it))
   \<and> (lastScannedItem s = None \<longrightarrow> \<not> low_stock_alert s)"
  by (simp add: status_cell_def low_stock_alert_def)

theorem C5_low_stock_witness:
  "status_cell (None :: InventoryItem option) rowA = Some ''Low Stock'' \<and> status_cell (Some rowA) rowB = Some ''In Stock''
   \<and> status_cell (Some rowA) rowA = None
   \<and> low_stock_alert (initial\<lparr>lastScannedItem := Some itemA\<rparr>)
   \<and> \<not> low_stock_alert initial"
proof -
  have a: "\<not> in_edit_mode (None :: InventoryItem option) rowA" "\<not> in_edit_mode (Some rowA) rowB" "in_edit_mode (Some rowA) rowA"
    by (simp_all add: in_edit_mode_def rowA_def rowB_def)
  have b: "lastScannedItem (initial\<lparr>lastScannedItem := Some itemA\<rparr>) = Some itemA"
    "lastScannedItem initial = None"
    by (simp_all add: initial_def)
  from a b C5_low_stock [of "None :: InventoryItem option" rowA "initial\<lparr>lastScannedItem := Some itemA\<rparr>" itemA]
    C5_low_stock [of "Some rowA" rowB initial itemA]
    C5_low_stock [of "Some rowA" rowA initial itemA]
  show ?thesis
    by (simp add: rowA_def rowB_def itemA_def)
qed

section \<open>Failures\<close>

text \<open>
  Claim C6. When the call awaited by a scan or by a quantity adjustment fails, the
  message becomes an error carrying the failure's description, or the handler's fixed
  fallback when there is none (or an empty one); the snapshot is unchanged, the busy flag
  is cleared, a scan also clears the input buffer, the call is no longer awaited, and no
  request is sent and no timer set: nothing is retried.
\<close>

theorem C6_failure_contract:
  "(map_of (inflight s) rid = Some k \<longrightarrow>
      scanMessage (deliver rid (Failed m) s) =
        Some \<lparr>type' = error,
              text' = message_or m (case k of AwaitScan \<Rightarrow> ''Failed to process barcode''
                                     | AwaitQuantity \<Rightarrow> ''Failed to update quantity'')\<rparr>
      \<and> lastScannedItem (deliver rid (Failed m) s) = lastScannedItem s
      \<and> \<not> isProcessing (deliver rid (Failed m) s)
      \<and> barcodeInput (deliver rid (Failed m) s) = (case k of AwaitScan \<Rightarrow> [] | AwaitQuantity \<Rightarrow> barcodeInput s)
      \<and> sent (deliver rid (Failed m) s) = sent s
      \<and> timers (deliver rid (Failed m) s) = timers s
      \<and> map_of (inflight (deliver rid (Failed m) s)) rid = None)
   \<and> message_or None f = f \<and> message_or (Some []) f = f
   \<and> (t \<noteq> [] \<longrightarrow> message_or (Some t) f = t)"
proof -
  have "map_of (filter (\<lambda>p. fst p \<noteq> rid) l) rid = None" for l :: "(nat \<times> continuation) list"
    by (induction l) auto
  then show ?thesis
    by (cases k)
      (simp_all add: deliver_def Let_def resumeBarcodeSubmit_def resumeQuantityChange_def message_or_def)
qed

lemma busy_scan_eval:
  "busy_scan = \<lparr>barcodeInput = ''B'', lastScannedItem = Some itemA, scanMessage = None,
     isProcessing = True, scanTimeoutRef = Some 2,
     timers = [\<lparr>tid = 1, deadline = 3000, callback = ClearMessage\<rparr>], nextTimer = 3, clock = 0,
     sent = [scan_request ''A'', scan_request ''B''], inflight = [(1, AwaitScan)]\<rparr>"
  by (simp add: busy_scan_def run_def initial_def input_disabled_def submit_disabled_def
      handleInputChange_def handleManualSubmit_def handleBarcodeSubmit_def clear_ref_def
      clearTimeout_def setTimeout_def invoke_def deliver_def resumeBarcodeSubmit_def unwrap_def
      trim_def is_space_def Let_def)

theorem C6_failure_contract_witness:
  "scanMessage (deliver 1 (Failed (Some ''quota exceeded'')) busy_scan) =
      Some \<lparr>type' = error, text' = ''quota exceeded''\<rparr>
   \<and> scanMessage (deliver 1 (Failed None) busy_scan) =
      Some \<lparr>type' = error, text' = ''Failed to process barcode''\<rparr>
   \<and> lastScannedItem (deliver 1 (Failed None) busy_scan) = Some itemA
   \<and> \<not> isProcessing (deliver 1 (Failed None) busy_scan)
   \<and> barcodeInput (deliver 1 (Failed None) busy_scan) = []
   \<and> length (sent (deliver 1 (Failed None) busy_scan)) = 2"
proof -
  have a: "map_of (inflight busy_scan) 1 = Some AwaitScan"
    by (simp add: busy_scan_eval)
  have b: "''quota exceeded'' \<noteq> []" by simp
  from a b C6_failure_contract [of busy_scan 1 AwaitScan "Some ''quota exceeded''" "''Failed to process barcode''" "''quota exceeded''"]
    C6_failure_contract [of busy_scan 1 AwaitScan None "''Failed to process barcode''" "''quota exceeded''"]
  show ?thesis
    by (simp add: busy_scan_eval)
qed

section \<open>Spreadsheet bridge\<close>

text \<open>
  Claim C7. When the import form is submitted with the spreadsheet id, the range or the
  API key empty, the handler ends with the error message \<open>Please fill in all required
  fields\<close> and the loading flag off, and with nothing else changed: no request is sent
  (the check throws before the import function is invoked), and the form fields and
  the history are as they were.
\<close>

theorem C7_import_validation:
  "spreadsheetId s = [] \<or> range' s = [] \<or> apiKey s = [] \<Longrightarrow>
     handleImport s =
       s\<lparr>loading := False,
         message := Some \<lparr>type' = error, text' = ''Please fill in all required fields''\<rparr>\<rparr>
     \<and> settings_sent (handleImport s) = settings_sent s
     \<and> syncHistory (handleImport s) = syncHistory s
     \<and> message (handleImport s) = Some \<lparr>type' = error, text' = ''Please fill in all required fields''\<rparr>"
  by (auto simp: handleImport_def Let_def message_or_def)

theorem C7_import_validation_witness:
  "handleImport settings0 =
     settings0\<lparr>message := Some \<lparr>type' = error, text' = ''Please fill in all required fields''\<rparr>\<rparr>
   \<and> settings_sent (handleImport settings0) = []"
proof -
  have a: "spreadsheetId settings0 = [] \<or> range' settings0 = [] \<or> apiKey settings0 = []"
    by (simp add: settings0_def)
  from C7_import_validation [OF a] show ?thesis
    by (simp add: settings0_def)
qed

text \<open>
  An import or an export that fails sends no history query and leaves the history list
  as it is: \<open>loadSyncHistory\<close> is called on the success path only (lines 78 and 116).
\<close>

theorem C8_counterexample:
  "settings_sent (resumeImport (Failed (Some ''HTTP 500'')) settings0) = []
   \<and> settings_sent (resumeExport (Failed None) settings0) = []
   \<and> settings_sent (handleImport settings0) = []
   \<and> syncHistory (resumeImport (Failed (Some ''HTTP 500'')) settings0) = syncHistory settings0"
  by (simp add: resumeImport_def resumeExport_def handleImport_def settings0_def Let_def)

text \<open>
  Claim C8, amended. After an import or an export that succeeds, one history query is
  sent, for the current user, ordered by \<open>created_at\<close> descending and limited to 5 rows;
  the rows it returns replace the history list (no rows: the empty list; a query error:
  the list stays). After an import or an export that fails, by a failure of the remote
  call or by the handler's own check of the form fields, no query is sent. The
  operation itself never changes the list.
\<close>

theorem C8_history_reload:
  "settings_sent (resumeImport (Returned d) s) = settings_sent s @ [SelectSyncHistory (user s) False 5]
   \<and> settings_sent (resumeExport (Returned x) s) = settings_sent s @ [SelectSyncHistory (user s) False 5]
   \<and> settings_sent (resumeImport (Failed m) s) = settings_sent s
   \<and> settings_sent (resumeExport (Failed m) s) = settings_sent s
   \<and> syncHistory (resumeImport r s) = syncHistory s
   \<and> syncHistory (resumeExport y s) = syncHistory s
   \<and> syncHistory (resumeLoadSyncHistory (Rows (Some rows)) s) = rows
   \<and> syncHistory (resumeLoadSyncHistory (Rows None) s) = []
   \<and> resumeLoadSyncHistory QueryFailed s = s
   \<and> (spreadsheetId s = [] \<or> range' s = [] \<or> apiKey s = [] \<longrightarrow>
        settings_sent (handleImport s) = settings_sent s \<and>
        syncHistory (handleImport s) = syncHistory s)
   \<and> (spreadsheetId s = [] \<or> range' s = [] \<or> accessToken s = [] \<longrightarrow>
        settings_sent (handleExport s) = settings_sent s \<and>
        syncHistory (handleExport s) = syncHistory s)
   \<and> settings_sent (resumeImport (NoData t) s) = settings_sent s
   \<and> settings_sent (resumeExport (NoData t) s) = settings_sent s"
proof -
  have resumed:
    "settings_sent (resumeImport (Returned d) s) = settings_sent s @ [SelectSyncHistory (user s) False 5]"
    "settings_sent (resumeExport (Returned x) s) = settings_sent s @ [SelectSyncHistory (user s) False 5]"
    "settings_sent (resumeImport (Failed m) s) = settings_sent s"
    "settings_sent (resumeExport (Failed m) s) = settings_sent s"
    "settings_sent (resumeImport (NoData t) s) = settings_sent s"
    "settings_sent (resumeExport (NoData t) s) = settings_sent s"
    by (simp_all add: resumeImport_def resumeExport_def loadSyncHistory_def Let_def)
  have kept: "syncHistory (resumeImport r s) = syncHistory s" "syncHistory (resumeExport y s) = syncHistory s"
    by (cases r; cases y; simp add: resumeImport_def resumeExport_def loadSyncHistory_def Let_def)+
  have loaded: "syncHistory (resumeLoadSyncHistory (Rows (Some rows)) s) = rows"
    "syncHistory (resumeLoadSyncHistory (Rows None) s) = []"
    "resumeLoadSyncHistory QueryFailed s = s"
    by (simp_all add: resumeLoadSyncHistory_def)
  have checked:
    "spreadsheetId s = [] \<or> range' s = [] \<or> apiKey s = [] \<longrightarrow>
       settings_sent (handleImport s) = settings_sent s \<and> syncHistory (handleImport s) = syncHistory s"
    "spreadsheetId s = [] \<or> range' s = [] \<or> accessToken s = [] \<longrightarrow>
       settings_sent (handleExport s) = settings_sent s \<and> syncHistory (handleExport s) = syncHistory s"
    by (auto simp: handleImport_def handleExport_def Let_def)
  from resumed kept loaded checked show ?thesis
    by simp
qed

theorem C8_history_reload_witness:
  "settings_sent (resumeImport (Returned (Direct (ImportResult 4 0))) settings0) =
     [SelectSyncHistory (Some ''u1'') False 5]
   \<and> syncHistory (resumeLoadSyncHistory (Rows (Some [9, 8, 7, 6, 5]))
        (resumeImport (Returned (Direct (ImportResult 4 0))) settings0)) = [9, 8, 7, 6, 5]
   \<and> settings_sent (handleImport settings0) = []
   \<and> settings_sent (handleExport settings0) = []
   \<and> syncHistory (handleExport settings0) = [7, 3]"
proof -
  have blank: "spreadsheetId settings0 = [] \<or> range' settings0 = [] \<or> apiKey settings0 = []"
    "spreadsheetId settings0 = [] \<or> range' settings0 = [] \<or> accessToken settings0 = []"
    by (simp_all add: settings0_def)
  from blank
    C8_history_reload [of "Direct (ImportResult 4 0)" settings0 "Direct (ExportResult 1)" None
      "Failed None" "Failed None" "[9, 8, 7, 6, 5]" "[]"]
    C8_history_reload [of "Direct (ImportResult 4 0)"
      "resumeImport (Returned (Direct (ImportResult 4 0))) settings0" "Direct (ExportResult 1)" None
      "Failed None" "Failed None" "[9, 8, 7, 6, 5]" "[]"]
  show ?thesis
    by (simp add: settings0_def)
qed

section \<open>Scan requests\<close>

lemma dropWhile_last: "dropWhile P xs \<noteq> [] \<Longrightarrow> last (dropWhile P xs) = last xs"
  by (induction xs) (auto split: if_splits)

lemma trim_ends: "trim s \<noteq> [] \<Longrightarrow> \<not> is_space (hd (trim s)) \<and> \<not> is_space (last (trim s))"
proof -
  assume a: "trim s \<noteq> []"
  let ?d = "dropWhile is_space s"
  let ?e = "dropWhile is_space (rev ?d)"
  from a have e: "?e \<noteq> []" by (simp add: trim_def)
  have d: "?d \<noteq> []"
  proof
    assume "?d = []"
    with e show False by simp
  qed
  from e have "\<not> is_space (hd ?e)" by (rule hd_dropWhile)
  with e have l: "\<not> is_space (last (trim s))" by (simp add: trim_def last_rev)
  from e have "last ?e = last (rev ?d)" by (rule dropWhile_last)
  also from d have "\<dots> = hd ?d" by (simp add: last_rev)
  finally have "hd (trim s) = hd ?d" using e by (simp add: trim_def hd_rev)
  moreover from d have "\<not> is_space (hd ?d)" by (rule hd_dropWhile)
  ultimately show ?thesis using l by simp
qed

text \<open>
  Claim C10. A submitted buffer whose trimmed text is not empty sends one request: action
  \<open>increment\<close>, the trimmed buffer as barcode (it neither starts nor ends with white
  space), and the creation defaults: the product name \<open>Product-\<close> followed by the
  trimmed barcode, empty colour and size. A buffer that trims to nothing, or a busy
  closure, sends nothing. On success the message is \<open>Scanned: \<close>, the returned product,
  \<open> (Quantity: \<close>, the returned quantity and \<open>)\<close>.
\<close>

theorem C10_scan_request:
  "(trim code \<noteq> [] \<longrightarrow>
      sent (handleBarcodeSubmit False code s) =
        sent s @ [SyncInventory increment (trim code)
                    (Some (ProductData (''Product-'' @ trim code) [] []))]
      \<and> \<not> is_space (hd (trim code)) \<and> \<not> is_space (last (trim code)))
   \<and> (trim code = [] \<longrightarrow> handleBarcodeSubmit p code s = s)
   \<and> handleBarcodeSubmit True code s = s
   \<and> scanMessage (resumeBarcodeSubmit (Returned d) s) =
        Some \<lparr>type' = success,
              text' = ''Scanned: '' @ product (unwrap d) @ '' (Quantity: '' @
                      number_toString (quantity (unwrap d)) @ '')''\<rparr>"
  using trim_ends [of code]
  by (simp add: handleBarcodeSubmit_def invoke_def scan_request_def resumeBarcodeSubmit_def
      setTimeout_def scanned_text_def)

lemma trim_example: "trim '' 123  '' = ''123''"
  by (simp add: trim_def is_space_def)

lemma show_example: "number_toString 1 = ''1''"
  by code_simp

theorem C10_scan_request_witness:
  "sent (handleBarcodeSubmit False '' 123  '' initial) =
     [SyncInventory increment ''123'' (Some (ProductData ''Product-123'' [] []))]
   \<and> scanMessage (resumeBarcodeSubmit
        (Returned (Direct \<lparr>barcode = ''123'', product = ''Product-123'', colour = None,
           size = None, quantity = 1, low_stock_threshold = 10\<rparr>)) initial) =
     Some \<lparr>type' = success, text' = ''Scanned: Product-123 (Quantity: 1)''\<rparr>"
proof -
  have a: "trim '' 123  '' \<noteq> []"
    by (simp add: trim_example)
  from a C10_scan_request [of "'' 123  ''" initial False
      "Direct \<lparr>barcode = ''123'', product = ''Product-123'', colour = None,
           size = None, quantity = 1, low_stock_threshold = 10\<rparr>"]
  show ?thesis
    by (simp add: trim_example show_example initial_def unwrap_def)
qed

section \<open>The debounce timer\<close>

lemma elapse_Suc: "elapse (Suc n) s = tick (elapse n s)"
  by (simp add: elapse_def)

lemma elapse_0: "elapse 0 s = s"
  by (simp add: elapse_def)

lemma elapse_add: "elapse (m + n) s = elapse m (elapse n s)"
  by (simp add: elapse_def funpow_add)

lemma submits_not_auto: "\<not> is_auto cb \<Longrightarrow> submits cb = []"
  by (cases cb) (simp_all add: is_auto_def submits_def)

lemma concat_submits:
  "concat (map (\<lambda>x. submits (callback x)) ts) =
   concat (map (\<lambda>x. submits (callback x)) (filter (\<lambda>t. is_auto (callback t)) ts))"
  by (induction ts) (simp_all add: submits_not_auto)

lemma due_auto:
  "filter (\<lambda>t. is_auto (callback t)) (filter P (timers s)) = filter P (auto_timers s)"
  by (simp add: auto_timers_def conj_commute)

lemma fire_not_auto:
  "\<not> is_auto cb \<Longrightarrow> isProcessing (fire cb s) = isProcessing s"
  by (cases cb) (simp_all add: is_auto_def fire_def)

lemma fold_fire_idle:
  "filter (\<lambda>t. is_auto (callback t)) ts = [] \<Longrightarrow>
   isProcessing (fold (\<lambda>x. fire (callback x)) ts s) = isProcessing s"
  by (induction ts arbitrary: s) (simp_all add: fire_not_auto split: if_splits)

lemma tick_sent:
  "sent (tick s) =
   sent s @ concat (map (\<lambda>x. submits (callback x)) (filter (\<lambda>x. deadline x \<le> clock s + 1) (auto_timers s)))"
proof -
  let ?due = "filter (\<lambda>x. deadline x \<le> clock s + 1) (timers s)"
  have "sent (tick s) = sent s @ concat (map (\<lambda>x. submits (callback x)) ?due)"
    by (simp add: tick_def Let_def fold_fire_sent)
  also have "concat (map (\<lambda>x. submits (callback x)) ?due) =
      concat (map (\<lambda>x. submits (callback x)) (filter (\<lambda>t. is_auto (callback t)) ?due))"
    by (rule concat_submits)
  also have "filter (\<lambda>t. is_auto (callback t)) ?due =
      filter (\<lambda>x. deadline x \<le> clock s + 1) (auto_timers s)"
    by (rule due_auto)
  finally show ?thesis .
qed

lemma tick_auto_timers:
  "auto_timers (tick s) = filter (\<lambda>x. \<not> deadline x \<le> clock s + 1) (auto_timers s)"
  by (simp add: tick_def Let_def auto_timers_def fold_fire_kept conj_commute)

lemma tick_kept:
  "clock (tick s) = clock s + 1" "barcodeInput (tick s) = barcodeInput s"
  "scanTimeoutRef (tick s) = scanTimeoutRef s"
  by (simp_all add: tick_def Let_def fold_fire_kept)

lemma tick_isProcessing:
  "filter (\<lambda>x. deadline x \<le> clock s + 1) (auto_timers s) = [] \<Longrightarrow> isProcessing (tick s) = isProcessing s"
proof -
  let ?due = "filter (\<lambda>x. deadline x \<le> clock s + 1) (timers s)"
  assume "filter (\<lambda>x. deadline x \<le> clock s + 1) (auto_timers s) = []"
  then have "filter (\<lambda>t. is_auto (callback t)) ?due = []"
    by (simp only: due_auto)
  from fold_fire_idle [OF this] show ?thesis
    by (simp add: tick_def Let_def)
qed

lemma tick_armed:
  assumes "armed v d l s" "clock s + 1 < d"
  shows "armed v d l (tick s)"
proof -
  from assms obtain i where i: "scanTimeoutRef s = Some i"
    "auto_timers s = [\<lparr>tid = i, deadline = d, callback = AutoSubmit v False\<rparr>]"
    by (auto simp: armed_def)
  from i assms(2) have due: "filter (\<lambda>x. deadline x \<le> clock s + 1) (auto_timers s) = []"
    by simp
  from i assms(2) have rest: "filter (\<lambda>x. \<not> deadline x \<le> clock s + 1) (auto_timers s) = auto_timers s"
    by simp
  from assms i show ?thesis
    by (simp add: armed_def tick_sent tick_auto_timers tick_kept tick_isProcessing due rest)
qed

lemma elapse_armed:
  "armed v d l s \<Longrightarrow> clock s + n < d \<Longrightarrow> armed v d l (elapse n s) \<and> clock (elapse n s) = clock s + n"
proof (induction n)
  case 0
  then show ?case by (simp add: elapse_0)
next
  case (Suc n)
  then have a: "armed v d l (elapse n s)" and c: "clock (elapse n s) = clock s + n"
    by simp_all
  from Suc.prems c have "clock (elapse n s) + 1 < d" by simp
  from tick_armed [OF a this] c show ?case
    by (simp add: elapse_Suc tick_kept)
qed

lemma tick_fires:
  assumes "armed v d l s" "clock s + 1 = d"
  shows "sent (tick s) = l @ (if trim v = [] then [] else [scan_request v]) \<and> auto_timers (tick s) = []"
proof -
  from assms obtain i where i: "sent s = l"
    "auto_timers s = [\<lparr>tid = i, deadline = d, callback = AutoSubmit v False\<rparr>]"
    by (auto simp: armed_def)
  with assms(2) show ?thesis
    by (simp add: tick_sent tick_auto_timers submits_def)
qed

lemma tick_quiet:
  "auto_timers s = [] \<Longrightarrow> sent (tick s) = sent s \<and> auto_timers (tick s) = []"
  by (simp add: tick_sent tick_auto_timers)

lemma elapse_quiet:
  "auto_timers s = [] \<Longrightarrow> sent (elapse n s) = sent s \<and> auto_timers (elapse n s) = []"
  by (induction n) (simp_all add: elapse_0 elapse_Suc tick_quiet)

lemma clear_ref_auto: "ref_tracks s \<Longrightarrow> auto_timers (clear_ref s) = []"
proof (cases "scanTimeoutRef s")
  case None
  assume "ref_tracks s"
  with None have "auto_timers s = []"
    by (cases "auto_timers s") (simp_all add: ref_tracks_def)
  with None show ?thesis by (simp add: clear_ref_def)
next
  case (Some i)
  assume "ref_tracks s"
  with Some have "\<forall>t\<in>set (auto_timers s). tid t = i"
    by (simp add: ref_tracks_def list_all_iff)
  then have "filter (\<lambda>t. tid t \<noteq> i) (auto_timers s) = []"
    by (simp add: filter_empty_conv)
  with Some show ?thesis
    by (simp add: clear_ref_def clearTimeout_def auto_timers_def conj_commute)
qed

lemma handleInputChange_timer:
  "ref_tracks s \<Longrightarrow>
   auto_timers (handleInputChange v s) =
     [\<lparr>tid = nextTimer s, deadline = clock s + 100, callback = AutoSubmit v (isProcessing s)\<rparr>]
   \<and> scanTimeoutRef (handleInputChange v s) = Some (nextTimer s)"
proof -
  assume "ref_tracks s"
  then have "ref_tracks (s\<lparr>barcodeInput := v\<rparr>)"
    by (simp add: ref_tracks_def auto_timers_def)
  from clear_ref_auto [OF this] show ?thesis
    by (simp add: handleInputChange_def setTimeout_def auto_timers_def is_auto_def clear_ref_kept)
qed

lemma handleInputChange_kept:
  "barcodeInput (handleInputChange v s) = v" "isProcessing (handleInputChange v s) = isProcessing s"
  "clock (handleInputChange v s) = clock s"
  by (simp_all add: handleInputChange_def setTimeout_def clear_ref_kept)

lemma armed_ref_tracks: "armed v d l s \<Longrightarrow> ref_tracks s"
  by (auto simp: armed_def ref_tracks_def)

lemma handleInputChange_armed:
  "ref_tracks s \<Longrightarrow> \<not> isProcessing s \<Longrightarrow> armed v (clock s + 100) (sent s) (handleInputChange v s)"
  using handleInputChange_timer [of s v]
  by (simp add: armed_def handleInputChange_kept handleInputChange_sent)

lemma deliver_chars_armed:
  "armed v (clock s + 100) l s \<Longrightarrow> \<forall>(g, c)\<in>set rest. g < 100 \<Longrightarrow>
   armed (v @ map snd rest) (clock (deliver_chars rest s) + 100) l (deliver_chars rest s)"
proof (induction rest arbitrary: v s)
  case Nil
  then show ?case by simp
next
  case (Cons gc rest)
  obtain g c where gc: "gc = (g, c)" by (cases gc)
  with Cons.prems have g: "g < 100" and r: "\<forall>(g, c)\<in>set rest. g < 100"
    by simp_all
  let ?e = "elapse g s"
  from g have "clock s + g < clock s + 100" by simp
  from elapse_armed [OF Cons.prems(1) this]
  have a: "armed v (clock s + 100) l ?e" and c: "clock ?e = clock s + g"
    by simp_all
  then have b: "barcodeInput ?e = v" "\<not> isProcessing ?e" "sent ?e = l"
    by (simp_all add: armed_def)
  let ?n = "handleInputChange (v @ [c]) ?e"
  from handleInputChange_armed [OF armed_ref_tracks [OF a] b(2), of "v @ [c]"] b
  have "armed (v @ [c]) (clock ?n + 100) l ?n"
    by (simp add: handleInputChange_kept)
  from Cons.IH [OF this r] gc b show ?case
    by (simp add: input_disabled_def)
qed

lemma armed_fires:
  assumes "armed v (clock s + 100) l s"
  shows "n < 100 \<Longrightarrow> sent (elapse n s) = l"
    and "sent (elapse (100 + n) s) = l @ (if trim v = [] then [] else [scan_request v])"
proof -
  show "sent (elapse n s) = l" if "n < 100"
    using elapse_armed [OF assms, of n] that by (simp add: armed_def)
  from elapse_armed [OF assms, of 99]
  have a: "armed v (clock s + 100) l (elapse 99 s)" and c: "clock (elapse 99 s) + 1 = clock s + 100"
    by simp_all
  from tick_fires [OF a c]
  have f: "sent (elapse 100 s) = l @ (if trim v = [] then [] else [scan_request v])"
    and q: "auto_timers (elapse 100 s) = []"
    using elapse_Suc [of 99 s] by simp_all
  from elapse_quiet [OF q, of n] f
  show "sent (elapse (100 + n) s) = l @ (if trim v = [] then [] else [scan_request v])"
    by (simp add: elapse_add [of n 100 s] add.commute)
qed


section \<open>The ref names every pending auto-submit timer\<close>

lemma handleBarcodeSubmit_timers:
  "timers (handleBarcodeSubmit p v s) = timers s"
  "scanTimeoutRef (handleBarcodeSubmit p v s) = scanTimeoutRef s"
  by (simp_all add: handleBarcodeSubmit_def invoke_def)

lemma tick_ref_tracks: "ref_tracks s \<Longrightarrow> ref_tracks (tick s)"
  by (simp add: ref_tracks_def tick_auto_timers tick_kept list_all_iff)

lemma elapse_ref_tracks: "ref_tracks s \<Longrightarrow> ref_tracks (elapse n s)"
  by (induction n) (simp_all add: elapse_0 elapse_Suc tick_ref_tracks)

lemma resume_auto_timers:
  "auto_timers (resumeBarcodeSubmit r s) = auto_timers s"
  "scanTimeoutRef (resumeBarcodeSubmit r s) = scanTimeoutRef s"
  "auto_timers (resumeQuantityChange r s) = auto_timers s"
  "scanTimeoutRef (resumeQuantityChange r s) = scanTimeoutRef s"
  by (cases r; simp add: resumeBarcodeSubmit_def resumeQuantityChange_def setTimeout_def
      auto_timers_def is_auto_def)+

lemma deliver_ref_tracks: "ref_tracks s \<Longrightarrow> ref_tracks (deliver rid r s)"
proof (cases "map_of (inflight s) rid")
  case None
  assume "ref_tracks s"
  with None show ?thesis by (simp add: deliver_def)
next
  case (Some k)
  assume a: "ref_tracks s"
  let ?s1 = "s\<lparr>inflight := filter (\<lambda>p. fst p \<noteq> rid) (inflight s)\<rparr>"
  from a have "ref_tracks ?s1"
    by (simp add: ref_tracks_def auto_timers_def)
  with Some show ?thesis
    by (cases k) (simp_all add: deliver_def Let_def ref_tracks_def resume_auto_timers)
qed

lemma step_ref_tracks: "ref_tracks s \<Longrightarrow> ref_tracks (step e s)"
proof (cases e)
  case (Change v)
  assume "ref_tracks s"
  with Change handleInputChange_timer [of s v] show ?thesis
    by (simp add: ref_tracks_def)
next
  case SubmitForm
  assume "ref_tracks s"
  from clear_ref_auto [OF this] have "auto_timers (handleManualSubmit s) = []"
    by (simp add: handleManualSubmit_def auto_timers_def handleBarcodeSubmit_timers)
  with SubmitForm \<open>ref_tracks s\<close> show ?thesis
    by (simp add: ref_tracks_def)
next
  case (Press a)
  assume "ref_tracks s"
  with Press show ?thesis
    by (simp add: ref_tracks_def auto_timers_def handleQuantityChange_def invoke_def
        split: option.splits)
next
  case (Answer rid r)
  assume "ref_tracks s"
  with Answer show ?thesis by (simp add: deliver_ref_tracks)
next
  case (Elapse n)
  assume "ref_tracks s"
  with Elapse show ?thesis by (simp add: elapse_ref_tracks)
qed

lemma run_ref_tracks: "ref_tracks s \<Longrightarrow> ref_tracks (run es s)"
  unfolding run_def by (induction es arbitrary: s) (simp_all add: step_ref_tracks)

lemma reachable_ref_tracks: "ref_tracks (run es initial)"
  by (rule run_ref_tracks) (simp add: ref_tracks_def auto_timers_def initial_def)

section \<open>The debounced scan pipeline\<close>

text \<open>
  Claim C1. In any state the view can reach with the input enabled, let a burst of
  characters be typed with every gap between two characters below 100 ms. Then the
  buffer is the old buffer followed by the characters; no request is sent during the
  burst nor in the 100 ms after its last character; at 100 ms after the last character
  exactly one request is sent, the scan request of the whole buffer, unless the buffer
  trims to nothing, and then none is; and no further request follows as time passes.
  Every change of the input leaves exactly one pending auto-submit timer, the new one,
  due 100 ms later, and stores it in the ref: the timer pending before is cancelled.
\<close>

theorem C1_debounce:
  "\<not> isProcessing (run es initial) \<Longrightarrow> \<forall>(g, c)\<in>set rest. g < 100 \<Longrightarrow>
   barcodeInput (burst c rest (run es initial)) = barcodeInput (run es initial) @ c # map snd rest
   \<and> (\<forall>n<100. sent (elapse n (burst c rest (run es initial))) = sent (run es initial))
   \<and> (\<forall>n. sent (elapse (100 + n) (burst c rest (run es initial))) =
        sent (run es initial) @
        (if trim (barcodeInput (run es initial) @ c # map snd rest) = [] then []
         else [scan_request (barcodeInput (run es initial) @ c # map snd rest)]))
   \<and> auto_timers (handleInputChange v (run es initial)) =
        [\<lparr>tid = nextTimer (run es initial), deadline = clock (run es initial) + 100,
          callback = AutoSubmit v False\<rparr>]
   \<and> scanTimeoutRef (handleInputChange v (run es initial)) = Some (nextTimer (run es initial))"
proof -
  let ?s = "run es initial"
  let ?v = "barcodeInput ?s @ [c]"
  let ?n = "handleInputChange ?v ?s"
  assume p: "\<not> isProcessing ?s" and g: "\<forall>(g, c)\<in>set rest. g < 100"
  have r: "ref_tracks ?s" by (rule reachable_ref_tracks)
  from handleInputChange_armed [OF r p, of ?v]
  have "armed ?v (clock ?n + 100) (sent ?s) ?n"
    by (simp add: handleInputChange_kept)
  from deliver_chars_armed [OF this g] p
  have a: "armed (?v @ map snd rest) (clock (burst c rest ?s) + 100) (sent ?s) (burst c rest ?s)"
    by (simp add: burst_def input_disabled_def)
  then have b: "barcodeInput (burst c rest ?s) = barcodeInput ?s @ c # map snd rest"
    by (simp add: armed_def)
  from armed_fires [OF a] b handleInputChange_timer [OF r, of v] p show ?thesis
    by simp
qed

lemma trim_ABC: "trim ''ABC'' = ''ABC''"
  by (simp add: trim_def is_space_def)

theorem C1_debounce_witness:
  "barcodeInput (burst CHR ''A'' [(30, CHR ''B''), (99, CHR ''C'')] initial) = ''ABC''
   \<and> sent (elapse 99 (burst CHR ''A'' [(30, CHR ''B''), (99, CHR ''C'')] initial)) = []
   \<and> sent (elapse 100 (burst CHR ''A'' [(30, CHR ''B''), (99, CHR ''C'')] initial)) =
       [SyncInventory increment ''ABC'' (Some (ProductData ''Product-ABC'' [] []))]
   \<and> sent (elapse 5000 (burst CHR ''A'' [(30, CHR ''B''), (99, CHR ''C'')] initial)) =
       [SyncInventory increment ''ABC'' (Some (ProductData ''Product-ABC'' [] []))]"
proof -
  have i: "run [] initial = initial"
    by (simp add: run_def)
  have p: "\<not> isProcessing (run [] initial)"
    unfolding i by (simp add: initial_def)
  have g: "\<forall>(g, c)\<in>set [(30, CHR ''B''), (99, CHR ''C'')]. g < (100::nat)"
    by simp
  have f: "barcodeInput initial = []" "sent initial = []"
    by (simp_all add: initial_def)
  note t = C1_debounce [OF p g, of "CHR ''A''" "[]", unfolded i f]
  from t have a: "barcodeInput (burst CHR ''A'' [(30, CHR ''B''), (99, CHR ''C'')] initial) = ''ABC''"
    by simp
  from t have "\<forall>n<100. sent (elapse n (burst CHR ''A'' [(30, CHR ''B''), (99, CHR ''C'')] initial)) = []"
    by simp
  then have b: "sent (elapse 99 (burst CHR ''A'' [(30, CHR ''B''), (99, CHR ''C'')] initial)) = []"
    by simp
  from t have c: "sent (elapse (100 + n) (burst CHR ''A'' [(30, CHR ''B''), (99, CHR ''C'')] initial)) =
       [SyncInventory increment ''ABC'' (Some (ProductData ''Product-ABC'' [] []))]" for n
    by (simp add: trim_ABC scan_request_def)
  from a b c [of 0] c [of 4900] show ?thesis
    by simp
qed

section \<open>One request at a time\<close>

lemma elapse_idle:
  "list_all (\<lambda>t. clock s + n < deadline t) (timers s) \<Longrightarrow> elapse n s = s\<lparr>clock := clock s + n\<rparr>"
proof (induction n)
  case 0
  then show ?case by (simp add: elapse_0)
next
  case (Suc n)
  then have a: "\<forall>t\<in>set (timers s). clock s + Suc n < deadline t"
    by (simp add: list_all_iff)
  then have "list_all (\<lambda>t. clock s + n < deadline t) (timers s)"
    by (auto simp: list_all_iff)
  with Suc.IH have e: "elapse n s = s\<lparr>clock := clock s + n\<rparr>" by simp
  from a have "filter (\<lambda>x. deadline x \<le> Suc (clock s + n)) (timers s) = []"
    by (auto simp: filter_empty_conv)
  moreover from a have "filter (\<lambda>x. \<not> deadline x \<le> Suc (clock s + n)) (timers s) = timers s"
    by (auto simp: filter_id_conv)
  ultimately show ?case
    by (simp add: elapse_Suc e tick_def Let_def)
qed

lemma typed_B_eval:
  "typed_B = \<lparr>barcodeInput = ''B'', lastScannedItem = Some itemA,
     scanMessage = Some \<lparr>type' = success, text' = ''Scanned: Product-A (Quantity: 1)''\<rparr>,
     isProcessing = False, scanTimeoutRef = Some 2,
     timers = [\<lparr>tid = 1, deadline = 3000, callback = ClearMessage\<rparr>,
               \<lparr>tid = 2, deadline = 100, callback = AutoSubmit ''B'' False\<rparr>],
     nextTimer = 3, clock = 0, sent = [scan_request ''A''], inflight = []\<rparr>"
  by (simp add: typed_B_def run_def initial_def input_disabled_def submit_disabled_def
      handleInputChange_def handleManualSubmit_def handleBarcodeSubmit_def clear_ref_def
      clearTimeout_def setTimeout_def invoke_def deliver_def resumeBarcodeSubmit_def unwrap_def
      trim_def is_space_def Let_def scanned_text_def)
    (simp add: itemA_def show_example)

lemma pressed_eval:
  "pressed = \<lparr>barcodeInput = ''B'', lastScannedItem = Some itemA,
     scanMessage = Some \<lparr>type' = success, text' = ''Scanned: Product-A (Quantity: 1)''\<rparr>,
     isProcessing = True, scanTimeoutRef = Some 2,
     timers = [\<lparr>tid = 1, deadline = 3000, callback = ClearMessage\<rparr>,
               \<lparr>tid = 2, deadline = 100, callback = AutoSubmit ''B'' False\<rparr>],
     nextTimer = 3, clock = 10,
     sent = [scan_request ''A'', SyncInventory increment ''A'' None],
     inflight = [(1, AwaitQuantity)]\<rparr>"
proof -
  have "elapse 10 typed_B = typed_B\<lparr>clock := 10\<rparr>"
    using elapse_idle [of typed_B 10] by (simp add: typed_B_eval)
  then show ?thesis
    by (simp add: pressed_def run_def typed_B_eval button_disabled_def handleQuantityChange_def
        invoke_def itemA_def)
qed

text \<open>
  Claim C2, at this session. When the increment button has been pressed the busy flag is
  set and the adjustment is the one request in flight. 90 ms later the timer of \<open>B\<close>
  fires: its closure holds the \<open>isProcessing\<close> of the render in which \<open>B\<close> was typed,
  which is false, so the guard of \<open>handleBarcodeSubmit\<close> lets it through and a second
  request is sent while the first is still in flight. When the first is answered the
  busy flag is cleared although the second is still awaited.
\<close>

theorem C2_overlapping_requests:
  "isProcessing pressed \<and> inflight pressed = [(1, AwaitQuantity)]
   \<and> inflight (step (Elapse 90) pressed) = [(1, AwaitQuantity), (2, AwaitScan)]
   \<and> sent (step (Elapse 90) pressed) =
       [scan_request ''A'', SyncInventory increment ''A'' None, scan_request ''B'']
   \<and> \<not> isProcessing (step (Answer 1 (Failed None)) (step (Elapse 90) pressed))
   \<and> inflight (step (Answer 1 (Failed None)) (step (Elapse 90) pressed)) = [(2, AwaitScan)]"
proof -
  have "elapse 89 pressed = pressed\<lparr>clock := 99\<rparr>"
    using elapse_idle [of pressed 89] by (simp add: pressed_eval)
  moreover have "elapse 90 pressed = tick (elapse 89 pressed)"
    using elapse_Suc [of 89 pressed] by simp
  ultimately have "elapse 90 pressed = tick (pressed\<lparr>clock := 99\<rparr>)"
    by simp
  also have "\<dots> = pressed\<lparr>clock := 100, scanMessage := None,
      timers := [\<lparr>tid = 1, deadline = 3000, callback = ClearMessage\<rparr>],
      sent := [scan_request ''A'', SyncInventory increment ''A'' None, scan_request ''B''],
      inflight := [(1, AwaitQuantity), (2, AwaitScan)]\<rparr>"
    by (simp add: pressed_eval tick_def Let_def fire_def handleBarcodeSubmit_def invoke_def
        trim_def is_space_def)
  finally have e: "step (Elapse 90) pressed = pressed\<lparr>clock := 100, scanMessage := None,
      timers := [\<lparr>tid = 1, deadline = 3000, callback = ClearMessage\<rparr>],
      sent := [scan_request ''A'', SyncInventory increment ''A'' None, scan_request ''B''],
      inflight := [(1, AwaitQuantity), (2, AwaitScan)]\<rparr>"
    by simp
  show ?thesis
    unfolding e
    by (simp add: pressed_eval deliver_def Let_def resumeQuantityChange_def)
qed

theorem C2_overlapping_requests_witness:
  "length (inflight (step (Elapse 90) pressed)) = 2 \<and> length (sent (step (Elapse 90) pressed)) = 3"
  using C2_overlapping_requests by simp

section \<open>Inventory filtering\<close>

lemma str_includes_sublist: "str_includes s q \<longleftrightarrow> sublist q s"
  by (induction s) (simp_all add: sublist_Cons_right)

lemma includes_lowered: "str_includes (lc s) (lc q) \<longleftrightarrow> lowered_substring lc q s"
  by (simp add: str_includes_sublist lowered_substring_def sublist_def)

lemma matches_lowered: "matches lc q r \<longleftrightarrow> lowered_matches lc q r"
  by (auto simp: matches_def lowered_matches_def includes_lowered split: option.splits)

lemma map_eq_all2: "map f m = map f q \<longleftrightarrow> list_all2 (\<lambda>a b. f a = f b) m q"
  by (induction m arbitrary: q) (auto simp: list_all2_Cons1 map_eq_Cons_conv Cons_eq_map_conv)

lemma folded_ci_substring:
  "(\<exists>ps ss. map ascii_lower s = ps @ map ascii_lower q @ ss) \<longleftrightarrow> ci_substring q s"
proof
  assume "\<exists>ps ss. map ascii_lower s = ps @ map ascii_lower q @ ss"
  then obtain a b c where "s = a @ b @ c" "map ascii_lower b = map ascii_lower q"
    by (auto simp: map_eq_append_conv append_eq_map_conv)
  then show "ci_substring q s"
    unfolding ci_substring_def same_letter_def map_eq_all2 [symmetric] by blast
next
  assume "ci_substring q s"
  then obtain a b c where "s = a @ b @ c" "map ascii_lower b = map ascii_lower q"
    unfolding ci_substring_def same_letter_def map_eq_all2 [symmetric] by blast
  then have "map ascii_lower s = map ascii_lower a @ map ascii_lower q @ map ascii_lower c"
    by simp
  then show "\<exists>ps ss. map ascii_lower s = ps @ map ascii_lower q @ ss"
    by blast
qed

lemma ascii_lowered:
  "folds_ascii lc \<Longrightarrow> ascii q \<Longrightarrow> ascii s \<Longrightarrow> lowered_substring lc q s \<longleftrightarrow> ci_substring q s"
  by (simp add: folds_ascii_def lowered_substring_def folded_ci_substring)

lemma ascii_matches:
  "folds_ascii lc \<Longrightarrow> ascii q \<Longrightarrow> ascii_row r \<Longrightarrow> lowered_matches lc q r \<longleftrightarrow> query_matches q r"
  by (auto simp: lowered_matches_def query_matches_def ascii_row_def ascii_lowered split: option.splits)

lemma lowered_empty: "lc [] = [] \<Longrightarrow> lowered_matches lc [] r"
proof -
  assume "lc [] = []"
  then have "lc (barcode r) = [] @ lc [] @ lc (barcode r)"
    by simp
  then have "lowered_substring lc [] (barcode r)"
    unfolding lowered_substring_def by blast
  then show ?thesis
    by (simp add: lowered_matches_def)
qed

lemma lower_from_ascii: "ascii x \<Longrightarrow> lower_from p x = map ascii_lower x"
proof (induction p x rule: lower_from.induct)
  case (1 p)
  then show ?case by simp
next
  case (2 p c)
  then show ?case by simp
next
  case (3 p c d r)
  from "3.prems" have c: "(of_char c :: nat) < 128" and r: "ascii (d # r)"
    by (simp_all add: ascii_def)
  from c have n: "c \<noteq> CHR 0xCE" "\<not> greek_small c d"
    by (auto simp: greek_small_def Let_def)
  from "3.IH"(4) n r have "lower_from (ascii_letter c) (d # r) = map ascii_lower (d # r)"
    by simp
  with n show ?case by simp
qed

lemma lower_greek_folds: "folds_ascii lower_greek"
  by (simp add: folds_ascii_def lower_greek_def lower_from_ascii)

lemma lower_greek_samples:
  "lower_greek queryS = [CHR 0xCE, CHR 0xB1, CHR 0xCF, CHR 0x82]"
  "lower_greek (product rowS) = [CHR 0xCE, CHR 0xB1, CHR 0xCF, CHR 0x83, CHR 0xCE, CHR 0xB1]"
  "lower_greek (barcode rowS) = ''s-1''"
  by code_simp+

text \<open>
  The query alpha, sigma is spelled by the first two letters of the product alpha,
  sigma, alpha, yet the row is filtered out: the sigma that ends the query is
  lower-cased to the final sigma, the sigma inside the product is not.
\<close>

theorem C4_counterexample:
  "ci_substring queryS (product rowS) \<and> query_matches queryS rowS
   \<and> rowS \<in> set (inventory dashS)
   \<and> rowS \<notin> set (filteredInventory (setSearchQuery lower_greek queryS dashS))"
proof -
  have "product rowS = [] @ queryS @ [CHR 0xCE, CHR 0x91]"
    by (simp add: rowS_def queryS_def)
  moreover have "list_all2 same_letter queryS queryS"
    by (simp add: list_all2_same same_letter_def)
  ultimately have a: "ci_substring queryS (product rowS)"
    unfolding ci_substring_def by blast
  have "\<not> matches lower_greek queryS rowS"
    by (simp add: matches_def lower_greek_samples) (simp add: rowS_def prefix_def)
  moreover have "rowS \<noteq> rowA"
    by (simp add: rowS_def rowA_def)
  ultimately show ?thesis
    using a by (simp add: query_matches_def dashS_def setSearchQuery_def filter_effect_def)
qed

text \<open>
  Claim C4, amended. For every inventory list and every query, the filtered list holds
  exactly the rows in which the lower-cased query is a substring of the lower-cased
  barcode, product, colour or size (a missing colour or size never matches), in the
  inventory's order, each string lower-cased as a whole by \<open>toLowerCase\<close>; for an ASCII
  query and a row of ASCII text this is the case-insensitive substring test; the empty
  query keeps every row; the list is recomputed when the query or the inventory
  changes, and no request is sent for it.
\<close>

theorem C4_filtering:
  "filteredInventory (setSearchQuery lc q s) = filter (lowered_matches lc q) (inventory s)
   \<and> filteredInventory (setInventory lc rows s) = filter (lowered_matches lc (searchQuery s)) rows
   \<and> (r \<in> set (filteredInventory (setSearchQuery lc q s)) \<longleftrightarrow>
        r \<in> set (inventory s) \<and> lowered_matches lc q r)
   \<and> (folds_ascii lc \<and> ascii q \<and> ascii_row r \<longrightarrow>
        (r \<in> set (filteredInventory (setSearchQuery lc q s)) \<longleftrightarrow>
         r \<in> set (inventory s) \<and> query_matches q r))
   \<and> (lc [] = [] \<longrightarrow> filteredInventory (setSearchQuery lc [] s) = inventory s)
   \<and> dashboard_sent (setSearchQuery lc q s) = dashboard_sent s
   \<and> dashboard_sent (setInventory lc rows s) = dashboard_sent s"
proof -
  have m: "matches lc x = lowered_matches lc x" for x
    by (rule ext) (rule matches_lowered)
  have e: "lc [] = [] \<longrightarrow> filter (lowered_matches lc []) (inventory s) = inventory s"
    by (simp add: lowered_empty)
  have a: "folds_ascii lc \<and> ascii q \<and> ascii_row r \<longrightarrow> lowered_matches lc q r = query_matches q r"
    by (simp add: ascii_matches)
  from e a show ?thesis
    by (auto simp: setSearchQuery_def setInventory_def filter_effect_def m)
qed

theorem C4_filtering_witness:
  "rowA \<in> set (filteredInventory (setSearchQuery lower_greek ''wIDg'' dash0))
   \<and> query_matches ''wIDg'' rowA
   \<and> rowB \<notin> set (filteredInventory (setSearchQuery lower_greek ''wIDg'' dash0))
   \<and> filteredInventory (setSearchQuery lower_greek [] dash0) = [rowA, rowB]"
proof -
  have h: "folds_ascii lower_greek \<and> ascii ''wIDg'' \<and> ascii_row rowA"
    by (simp add: lower_greek_folds ascii_def ascii_row_def rowA_def)
  have n: "lower_greek [] = []"
    by (simp add: lower_greek_def)
  have f: "filteredInventory (setSearchQuery lower_greek ''wIDg'' dash0) = [rowA]"
    by code_simp
  have b: "rowA \<noteq> rowB"
    by (simp add: rowA_def rowB_def)
  have mem: "rowA \<in> set (filteredInventory (setSearchQuery lower_greek ''wIDg'' dash0))"
    using f by simp
  note t = C4_filtering [of lower_greek "''wIDg''" dash0 "[]" rowA]
  from t h have "(rowA \<in> set (filteredInventory (setSearchQuery lower_greek ''wIDg'' dash0))) =
      (rowA \<in> set (inventory dash0) \<and> query_matches ''wIDg'' rowA)"
    by blast
  with mem have q: "query_matches ''wIDg'' rowA"
    by blast
  from C4_filtering [of lower_greek "[]" dash0 "[]" rowA] n
  have "filteredInventory (setSearchQuery lower_greek [] dash0) = inventory dash0"
    by blast
  with mem q f b show ?thesis
    by (simp add: dash0_def)
qed

section \<open>The quantity field of the edit form\<close>
































end
